theory Spec2Isabelle
  imports Main "HOL-Library.Word"
begin

section \<open>The raw echo server (c/examples/raw\_echo.c)\<close>

text \<open>
  The program is a single-threaded event handler: \<open>run\<close> takes events from the proactor one
  at a time and passes each to \<open>handle\<close>, which dispatches raw-connection events to
  \<open>handle_receive\<close>. The embedding keeps this shape. What the proactor library decides (the
  events, the clock \<open>pn_proactor_now_64\<close>, the results of \<open>malloc\<close>, the buffers a
  \<open>take\<close> call returns, the open or closed state of a direction) arrives as a parameter of
  the event; every call the handler makes into the library, and every write to stdout or
  stderr, is recorded as an \<open>action\<close>, in program order.

  Integers. The \<open>int64_t\<close> time stamps and the \<open>int\<close> counters \<open>connects\<close> and
  \<open>disconnects\<close> are signed, their overflow is undefined in C, and they are modelled as
  unbounded \<open>int\<close>: the model describes the runs in which they do not overflow, and a
  theorem that gives the value of a sum of time stamps assumes that the sum is in the range
  of \<open>int64_t\<close>. The slot
  counters \<open>bytes\<close> and \<open>buffers\<close> are added to in unsigned arithmetic
  (\<open>int += uint32_t\<close>, \<open>int += size_t\<close>) and narrowed back to 32 bits, so they are
  \<open>32 word\<close> and wrap.
\<close>

subsection \<open>Handles and data\<close>

type_synonym conn = nat       \<comment> \<open>a non-null \<open>pn_raw_connection_t *\<close>\<close>
type_synonym lid = nat        \<comment> \<open>a non-null \<open>pn_listener_t *\<close>\<close>
type_synonym addr = nat       \<comment> \<open>a non-null \<open>char *\<close> returned by \<open>malloc\<close>\<close>

text \<open>A pointer that may be \<open>NULL\<close> is an \<open>option\<close>; \<open>None\<close> is \<open>NULL\<close>.\<close>

definition MAX_CONNECTIONS :: nat where
  "MAX_CONNECTIONS = 5"

definition READ_BUFFERS :: nat where
  "READ_BUFFERS = 4"

record conn_data_t =
  connection :: "conn option"
  last_recv_time :: int
  bytes :: "32 word"
  buffers :: "32 word"

text \<open>\<open>pn_raw_buffer_t\<close>; its \<open>context\<close> field is never read or written by the program.\<close>

record raw_buffer =
  bytes_b :: "addr option"
  capacity :: "32 word"
  size_b :: "32 word"
  offset :: "32 word"

text \<open>A \<open>pn_condition_t\<close> that is set has a name and a description.\<close>

type_synonym condition = "(string \<times> string) option"

text \<open>
  The program state: the fields of \<open>app_data_t\<close> that the handlers use, the globals
  \<open>conn_data\<close> and \<open>exit_code\<close>, and the context pointer stored on each raw connection
  (\<open>pn_raw_connection_set_context\<close> / \<open>pn_raw_connection_get_context\<close>), which is a
  pointer to an entry of \<open>conn_data\<close> and is kept as the index of that entry.
\<close>

record state =
  listener :: "lid option"
  first_idle_time :: int
  try_accept_time :: int
  wake_conn_time :: int
  connects :: int
  disconnects :: int
  conn_data :: "conn_data_t list"
  exit_code :: int
  context_of :: "conn \<Rightarrow> nat option"

subsection \<open>Events and actions\<close>

text \<open>
  One result of \<open>pn_raw_connection_take_read_buffers\<close> or
  \<open>pn_raw_connection_take_written_buffers\<close>: the \<open>n\<close> buffers it stored in \<open>buffs\<close>
  (\<open>n\<close> is their number, at most \<open>READ_BUFFERS\<close>), with what
  \<open>pn_raw_connection_is_write_closed\<close> and \<open>pn_raw_connection_is_read_closed\<close> answer
  in that iteration of the loop.
\<close>

record batch =
  taken :: "raw_buffer list"
  write_closed :: bool
  read_closed :: bool

datatype raw_event =
    CONNECTED "nat \<Rightarrow> addr option"
      \<comment> \<open>the result of the k-th call of \<open>malloc(1024)\<close> in the handler, \<open>None\<close> for failure\<close>
  | WAKE
  | DISCONNECTED condition
      \<comment> \<open>with \<open>pn_raw_connection_condition(c)\<close>\<close>
  | NEED_READ_BUFFERS
  | READ int "addr \<Rightarrow> string" "batch list"
      \<comment> \<open>with the clock, the memory the buffers point to, and the successive results of the
         take call; after the last of them the call returns 0\<close>
  | CLOSED_WRITE
  | CLOSED_READ
  | WRITTEN "batch list"
  | RAW_OTHER
      \<comment> \<open>any other event type that has a raw connection\<close>

datatype event =
    LISTENER_OPEN string
      \<comment> \<open>with the port that \<open>pn_netaddr_host_port\<close> writes\<close>
  | LISTENER_ACCEPT lid conn int
      \<comment> \<open>with the event's listener, the connection that \<open>pn_raw_connection()\<close> creates, and
         the clock\<close>
  | LISTENER_CLOSE condition
      \<comment> \<open>with \<open>pn_listener_condition\<close> of the event's listener\<close>
  | PROACTOR_TIMEOUT int
      \<comment> \<open>with the clock\<close>
  | PROACTOR_INACTIVE
  | RAW conn raw_event
      \<comment> \<open>an event whose \<open>pn_event_raw_connection\<close> is not \<open>NULL\<close>\<close>
  | OTHER_EVENT
      \<comment> \<open>any other event type, without a raw connection\<close>

datatype message =
    Listening_on string
  | Conn_connected nat
  | Conn_connected_not_connected
  | Conn_woken nat
  | Conn_disconnected nat "32 word" "32 word"
  | Conn_disconnected_not_connected
  | Too_many_connections
  | Idle_detected int

datatype action =
    Printf message
  | Fflush_stdout
  | Fprintf_stderr string string string
      \<comment> \<open>event type name, condition name, condition description\<close>
  | Fwrite_stdout string
  | Free addr
  | Give_read_buffers conn "raw_buffer list"
  | Write_buffers conn "raw_buffer list"
  | Raw_connection_close conn
  | Raw_connection_wake conn
  | Listener_raw_accept lid conn
  | Listener_close "lid option"
  | Set_timeout int

text \<open>
  The two uses of a \<open>NULL\<close> context pointer that C leaves undefined: \<open>cd->last_recv_time\<close>
  stores through it, \<open>cd-conn_data\<close> subtracts the array's address from it without
  accessing memory.
\<close>

datatype fault = Null_dereference | Null_pointer_difference

subsection \<open>The connection slots\<close>

function make_conn_data_loop ::
  "nat \<Rightarrow> conn_data_t list \<Rightarrow> conn option \<Rightarrow> conn_data_t list \<times> nat option" where
  "make_conn_data_loop i cds c =
     (if i < MAX_CONNECTIONS then
        (if connection (cds ! i) = None
         then (cds[i := (cds ! i)\<lparr>connection := c\<rparr>], Some i)
         else make_conn_data_loop (Suc i) cds c)
      else (cds, None))"
  by pat_completeness auto
termination
  by (relation "measure (\<lambda>(i, cds, c). MAX_CONNECTIONS - i)") auto

declare make_conn_data_loop.simps [simp del]

definition make_conn_data ::
  "conn_data_t list \<Rightarrow> conn option \<Rightarrow> conn_data_t list \<times> nat option" where
  "make_conn_data cds c = make_conn_data_loop 0 cds c"

definition free_conn_data :: "conn_data_t list \<Rightarrow> nat option \<Rightarrow> conn_data_t list" where
  "free_conn_data cds c =
     (case c of None \<Rightarrow> cds | Some i \<Rightarrow> cds[i := (cds ! i)\<lparr>connection := None\<rparr>])"

subsection \<open>Conditions\<close>

definition check_condition :: "string \<Rightarrow> condition \<Rightarrow> bool \<times> action list" where
  "check_condition e cond =
     (case cond of
        Some (name, description) \<Rightarrow> (True, [Fprintf_stderr e name description])
      | None \<Rightarrow> (False, []))"

definition close_all :: "conn option \<Rightarrow> state \<Rightarrow> action list" where
  "close_all c app =
     (case c of Some rc \<Rightarrow> [Raw_connection_close rc] | None \<Rightarrow> []) @
     (case listener app of Some l \<Rightarrow> [Listener_close (Some l)] | None \<Rightarrow> [])"

definition check_condition_fatal ::
  "string \<Rightarrow> conn option \<Rightarrow> condition \<Rightarrow> state \<Rightarrow> state \<times> action list" where
  "check_condition_fatal e c cond app =
     (case check_condition e cond of
        (True, out) \<Rightarrow> (app\<lparr>exit_code := 1\<rparr>, out @ close_all c app)
      | (False, out) \<Rightarrow> (app, out))"

subsection \<open>Raw connection events\<close>

definition recv_message :: "(addr \<Rightarrow> string) \<Rightarrow> addr \<Rightarrow> 32 word \<Rightarrow> action" where
  "recv_message mem p sz = Fwrite_stdout (take (unat sz) (mem p))"

text \<open>
  The loop \<open>for (; i; --i)\<close> of the connected handler, which fills
  \<open>buffers[READ_BUFFERS-i]\<close> with the result of one \<open>malloc\<close> each; the result is not
  tested.
\<close>

fun alloc_loop :: "nat \<Rightarrow> (nat \<Rightarrow> addr option) \<Rightarrow> raw_buffer list \<Rightarrow> raw_buffer list" where
  "alloc_loop 0 malloc bufs = bufs"
| "alloc_loop (Suc i) malloc bufs =
     alloc_loop i malloc
       (bufs[READ_BUFFERS - Suc i :=
          \<lparr>bytes_b = malloc (READ_BUFFERS - Suc i), capacity = 1024, size_b = 0, offset = 0\<rparr>])"

definition zero_buffer :: raw_buffer where
  "zero_buffer = \<lparr>bytes_b = None, capacity = 0, size_b = 0, offset = 0\<rparr>"

text \<open>
  The loop \<open>for (i=0; i<n && buffs[i].bytes; ++i)\<close> of the read handler: it adds the sizes
  to \<open>cd->bytes\<close> and writes the payloads, and stops at the first buffer whose \<open>bytes\<close>
  is \<open>NULL\<close>.
\<close>

fun recv_loop ::
  "(addr \<Rightarrow> string) \<Rightarrow> raw_buffer list \<Rightarrow> 32 word \<Rightarrow> 32 word \<times> action list" where
  "recv_loop mem [] acc = (acc, [])"
| "recv_loop mem (b # bs) acc =
     (case bytes_b b of
        None \<Rightarrow> (acc, [])
      | Some p \<Rightarrow>
          (case recv_loop mem bs (acc + size_b b) of
             (acc', out) \<Rightarrow> (acc', recv_message mem p (size_b b) # out)))"

text \<open>The loop that frees buffers, with the same stop at the first \<open>NULL\<close>.\<close>

fun free_loop :: "raw_buffer list \<Rightarrow> action list" where
  "free_loop [] = []"
| "free_loop (b # bs) =
     (case bytes_b b of None \<Rightarrow> [] | Some p \<Rightarrow> Free p # free_loop bs)"

text \<open>
  The \<open>while\<close> loop of the read handler over the results of the take call. A result of
  0 buffers ends it.
\<close>

fun read_loop ::
  "conn \<Rightarrow> (addr \<Rightarrow> string) \<Rightarrow> batch list \<Rightarrow> conn_data_t \<Rightarrow> conn_data_t \<times> action list" where
  "read_loop c mem [] cd = (cd, [])"
| "read_loop c mem (bt # bts) cd =
     (if taken bt = [] then (cd, [])
      else
        (case recv_loop mem (taken bt) (bytes cd) of
           (acc, out) \<Rightarrow>
             (case read_loop c mem bts
                     (cd\<lparr>bytes := acc,
                         buffers := buffers cd + of_nat (length (taken bt))\<rparr>) of
                (cd', rest) \<Rightarrow>
                  (cd',
                   out @
                   (if \<not> write_closed bt then [Write_buffers c (taken bt)]
                    else if \<not> read_closed bt then [Give_read_buffers c (taken bt)]
                    else free_loop (taken bt)) @
                   rest))))"

fun written_loop :: "conn \<Rightarrow> batch list \<Rightarrow> action list" where
  "written_loop c [] = []"
| "written_loop c (bt # bts) =
     (if taken bt = [] then []
      else
        (if \<not> read_closed bt then [Give_read_buffers c (taken bt)]
         else free_loop (taken bt)) @
        written_loop c bts)"

fun handle_receive :: "state \<Rightarrow> conn \<Rightarrow> raw_event \<Rightarrow> fault + state \<times> action list" where
  "handle_receive app c (CONNECTED malloc) =
     (case context_of app c of
        Some i \<Rightarrow>
          Inr (app\<lparr>connects := connects app + 1\<rparr>,
               [Printf (Conn_connected i),
                Give_read_buffers c
                  (alloc_loop READ_BUFFERS malloc (replicate READ_BUFFERS zero_buffer))])
      | None \<Rightarrow> Inr (app, [Printf Conn_connected_not_connected]))"
| "handle_receive app c WAKE =
     (case context_of app c of
        Some i \<Rightarrow> Inr (app, [Printf (Conn_woken i)])
      | None \<Rightarrow> Inl Null_pointer_difference)"
| "handle_receive app c (DISCONNECTED cond) =
     Inr (app\<lparr>disconnects := disconnects app + 1,
              conn_data := free_conn_data (conn_data app) (context_of app c)\<rparr>,
          (case context_of app c of
             Some i \<Rightarrow>
               Printf (Conn_disconnected i (bytes (conn_data app ! i))
                                           (buffers (conn_data app ! i)))
           | None \<Rightarrow> Printf Conn_disconnected_not_connected) #
          snd (check_condition ''PN_RAW_CONNECTION_DISCONNECTED'' cond))"
| "handle_receive app c NEED_READ_BUFFERS = Inr (app, [])"
| "handle_receive app c (READ now mem batches) =
     (case context_of app c of
        None \<Rightarrow> Inl Null_dereference
      | Some i \<Rightarrow>
          (case read_loop c mem batches ((conn_data app ! i)\<lparr>last_recv_time := now\<rparr>) of
             (cd, out) \<Rightarrow> Inr (app\<lparr>conn_data := (conn_data app)[i := cd]\<rparr>, out)))"
| "handle_receive app c CLOSED_WRITE = Inr (app, [Raw_connection_close c])"
| "handle_receive app c CLOSED_READ = Inr (app, [Raw_connection_close c])"
| "handle_receive app c (WRITTEN batches) = Inr (app, written_loop c batches)"
| "handle_receive app c RAW_OTHER = Inr (app, [])"

subsection \<open>The dispatcher\<close>

text \<open>The sweep \<open>for (i = 0; i < MAX_CONNECTIONS; ++i)\<close> of the timeout handler.\<close>

function wake_loop :: "nat \<Rightarrow> conn_data_t list \<Rightarrow> action list" where
  "wake_loop i cds =
     (if i < MAX_CONNECTIONS then
        (case connection (cds ! i) of
           Some c \<Rightarrow> [Raw_connection_wake c]
         | None \<Rightarrow> []) @ wake_loop (Suc i) cds
      else [])"
  by pat_completeness auto
termination
  by (relation "measure (\<lambda>(i, cds). MAX_CONNECTIONS - i)") auto

declare wake_loop.simps [simp del]

text \<open>
  What one call of \<open>handle\<close> does before its final \<open>return exit_code == 0\<close>: the new state,
  the actions, and whether the \<open>PN_PROACTOR_INACTIVE\<close> case returned \<open>false\<close> directly.
  A connection that \<open>pn_raw_connection()\<close> has just created has no context.
\<close>

fun handle_event :: "state \<Rightarrow> event \<Rightarrow> fault + bool \<times> state \<times> action list" where
  "handle_event app (LISTENER_OPEN port) =
     Inr (False, app, [Printf (Listening_on port), Fflush_stdout])"
| "handle_event app (LISTENER_ACCEPT l c now) =
     (case make_conn_data (conn_data app) (Some c) of
        (cds, Some i) \<Rightarrow>
          Inr (False,
               app\<lparr>conn_data := cds,
                   first_idle_time := 0,
                   try_accept_time := 0,
                   wake_conn_time :=
                     (if wake_conn_time app < now then now + 5000 else wake_conn_time app),
                   context_of := (context_of app)(c := Some i)\<rparr>,
               (if wake_conn_time app < now then [Set_timeout 5000] else []) @
               [Listener_raw_accept l c])
      | (cds, None) \<Rightarrow>
          Inr (False,
               app\<lparr>conn_data := cds, context_of := (context_of app)(c := None)\<rparr>,
               [Printf Too_many_connections, Listener_raw_accept l c,
                Raw_connection_close c]))"
| "handle_event app (LISTENER_CLOSE cond) =
     (case check_condition_fatal ''PN_LISTENER_CLOSE'' None cond (app\<lparr>listener := None\<rparr>) of
        (app', out) \<Rightarrow> Inr (False, app', out))"
| "handle_event app (PROACTOR_TIMEOUT now) =
     (if connects app - disconnects app = 0 then
        (if first_idle_time app = 0 then
           Inr (False, app\<lparr>first_idle_time := now\<rparr>,
                [Printf (Idle_detected 20000), Set_timeout 20000])
         else if first_idle_time app + 20000 \<le> now then
           Inr (False, app, [Listener_close (listener app)])
         else Inr (False, app, [Set_timeout 20000]))
      else if now \<ge> wake_conn_time app then
        Inr (False, app\<lparr>wake_conn_time := now + 5000\<rparr>,
             wake_loop 0 (conn_data app) @ [Set_timeout 5000])
      else Inr (False, app, [Set_timeout 5000]))"
| "handle_event app PROACTOR_INACTIVE = Inr (True, app, [])"
| "handle_event app (RAW c ev) =
     (case handle_receive app c ev of
        Inl f \<Rightarrow> Inl f
      | Inr (app', out) \<Rightarrow> Inr (False, app', out))"
| "handle_event app OTHER_EVENT = Inr (False, app, [])"

text \<open>
  \<open>handle\<close>: its result is \<open>(continue, state, actions)\<close>; \<open>continue\<close> is the returned
  \<open>bool\<close>.
\<close>

definition handle :: "state \<Rightarrow> event \<Rightarrow> fault + bool \<times> state \<times> action list" where
  "handle app e =
     (case handle_event app e of
        Inl f \<Rightarrow> Inl f
      | Inr (inactive, app', out) \<Rightarrow>
          Inr (if inactive then False else exit_code app' = 0, app', out))"

text \<open>
  \<open>run\<close> over the events that the proactor delivers, batch after batch, in order. It
  returns when \<open>handle\<close> answers \<open>false\<close>; the first component of the result tells whether
  it has returned, or the events given are used up and it waits in \<open>pn_proactor_wait\<close>.
\<close>

fun run :: "state \<Rightarrow> event list \<Rightarrow> fault + bool \<times> state \<times> action list" where
  "run app [] = Inr (False, app, [])"
| "run app (e # es) =
     (case handle app e of
        Inl f \<Rightarrow> Inl f
      | Inr (continue, app', out) \<Rightarrow>
          (if continue then
             (case run app' es of
                Inl f \<Rightarrow> Inl f
              | Inr (returned, app'', out') \<Rightarrow> Inr (returned, app'', out @ out'))
           else Inr (True, app', out)))"

text \<open>
  The state that \<open>main\<close> builds before it calls \<open>run\<close>, with the listener that
  \<open>pn_listener()\<close> returned.
\<close>

definition initial :: "lid \<Rightarrow> state" where
  "initial l =
     \<lparr>listener = Some l, first_idle_time = 0, try_accept_time = 0, wake_conn_time = 0,
      connects = 0, disconnects = 0,
      conn_data =
        replicate MAX_CONNECTIONS
          \<lparr>connection = None, last_recv_time = 0, bytes = 0, buffers = 0\<rparr>,
      exit_code = 0,
      context_of = (\<lambda>c. None)\<rparr>"

text \<open>The exit status of \<open>main\<close>, once \<open>run\<close> has returned.\<close>

definition main :: "lid \<Rightarrow> event list \<Rightarrow> int option" where
  "main l es =
     (case run (initial l) es of
        Inr (True, app, out) \<Rightarrow> Some (exit_code app)
      | _ \<Rightarrow> None)"

subsection \<open>Notions used in the statements\<close>

text \<open>
  The values of an \<open>int64_t\<close>. A sum of time stamps in the model is the sum the code
  computes when it lies in this range; outside it the code's signed addition overflows.
\<close>

definition INT64_MIN :: int where
  "INT64_MIN = - (2 ^ 63)"

definition INT64_MAX :: int where
  "INT64_MAX = 2 ^ 63 - 1"

definition int64 :: "int \<Rightarrow> bool" where
  "int64 x = (INT64_MIN \<le> x \<and> x \<le> INT64_MAX)"

definition bound_slots :: "conn_data_t list \<Rightarrow> nat" where
  "bound_slots cds = length (filter (\<lambda>cd. connection cd \<noteq> None) cds)"

text \<open>The events at which \<open>run\<close> returns: the only ones that make \<open>handle\<close> answer \<open>false\<close>
  while \<open>exit_code\<close> is still 0.\<close>

fun listener_error :: "event \<Rightarrow> bool" where
  "listener_error (LISTENER_CLOSE (Some cond)) = True"
| "listener_error _ = False"

fun stops :: "event \<Rightarrow> bool" where
  "stops PROACTOR_INACTIVE = True"
| "stops e = listener_error e"

fun is_accept :: "event \<Rightarrow> bool" where
  "is_accept (LISTENER_ACCEPT l c now) = True"
| "is_accept _ = False"

fun is_timeout :: "event \<Rightarrow> bool" where
  "is_timeout (PROACTOR_TIMEOUT now) = True"
| "is_timeout _ = False"

fun is_listener_close :: "action \<Rightarrow> bool" where
  "is_listener_close (Listener_close l) = True"
| "is_listener_close _ = False"

fun is_set_timeout :: "action \<Rightarrow> bool" where
  "is_set_timeout (Set_timeout d) = True"
| "is_set_timeout _ = False"

text \<open>
  What the read handler does with one batch, said without the loops: the payloads of
  the buffers before the first one without memory go to stdout, then the batch is passed on
  whole, or the memory of those same buffers is freed.
\<close>

definition has_bytes :: "raw_buffer \<Rightarrow> bool" where
  "has_bytes b = (bytes_b b \<noteq> None)"

definition payload :: "(addr \<Rightarrow> string) \<Rightarrow> raw_buffer \<Rightarrow> string" where
  "payload mem b = (case bytes_b b of Some p \<Rightarrow> take (unat (size_b b)) (mem p) | None \<Rightarrow> [])"

definition batch_actions :: "conn \<Rightarrow> (addr \<Rightarrow> string) \<Rightarrow> batch \<Rightarrow> action list" where
  "batch_actions c mem bt =
     map (\<lambda>b. Fwrite_stdout (payload mem b)) (takeWhile has_bytes (taken bt)) @
     (if \<not> write_closed bt then [Write_buffers c (taken bt)]
      else if \<not> read_closed bt then [Give_read_buffers c (taken bt)]
      else List.map_filter (\<lambda>b. map_option Free (bytes_b b)) (takeWhile has_bytes (taken bt)))"

text \<open>
  All the actions of \<open>run\<close> on the events \<open>es\<close>, up to its return, to a fault, or to the
  end of \<open>es\<close>.
\<close>

fun all_output :: "state \<Rightarrow> event list \<Rightarrow> action list" where
  "all_output app [] = []"
| "all_output app (e # es) =
     (case handle app e of
        Inl f \<Rightarrow> []
      | Inr (continue, app', out) \<Rightarrow> out @ (if continue then all_output app' es else []))"

definition listener_or_timer :: "action \<Rightarrow> bool" where
  "listener_or_timer a = (is_listener_close a \<or> is_set_timeout a)"

subsection \<open>The event engine, as far as the idle shutdown depends on it\<close>

text \<open>
  Modelled from the spec: the proactor that delivers the events is not part of this file.
  The spec says of it that closing the listener stops accepting, and that there is a single
  timer, which fires only after it has been armed and must be armed again after each
  firing. \<open>listening\<close> is false once \<open>pn_listener_close\<close> has been called on the listener,
  \<open>timer_armed\<close> is true between \<open>pn_proactor_set_timeout\<close> and the timeout event.
\<close>

record engine =
  listening :: bool
  timer_armed :: bool

text \<open>
  Modelled from the spec: what a call of the program does to the engine.
  \<open>pn_proactor_set_timeout\<close> arms the timer, \<open>pn_listener_close\<close> on a listener ends the
  accepting; no other call matters here.
\<close>

fun engine_action :: "action \<Rightarrow> engine \<Rightarrow> engine" where
  "engine_action (Set_timeout d) eng = eng\<lparr>timer_armed := True\<rparr>"
| "engine_action (Listener_close (Some l)) eng = eng\<lparr>listening := False\<rparr>"
| "engine_action a eng = eng"

text \<open>
  Modelled from the spec: the events the engine can deliver. An accept needs a listener
  that is still accepting, a timeout needs an armed timer.
\<close>

fun deliverable :: "engine \<Rightarrow> event \<Rightarrow> bool" where
  "deliverable eng (LISTENER_ACCEPT l c now) = listening eng"
| "deliverable eng (PROACTOR_TIMEOUT now) = timer_armed eng"
| "deliverable eng e = True"

text \<open>
  Modelled from the spec: the timer is single and fires once; delivering the timeout
  disarms it.
\<close>

fun delivered :: "event \<Rightarrow> engine \<Rightarrow> engine" where
  "delivered (PROACTOR_TIMEOUT now) eng = eng\<lparr>timer_armed := False\<rparr>"
| "delivered e eng = eng"

text \<open>
  Modelled from the spec: the engine after it has delivered \<open>e\<close> and the handler has made
  the calls \<open>out\<close>.
\<close>

definition engine_after :: "engine \<Rightarrow> event \<Rightarrow> action list \<Rightarrow> engine" where
  "engine_after eng e out = fold engine_action out (delivered e eng)"

text \<open>
  Modelled from the spec: \<open>deliveries eng app es\<close> says that the engine, in state \<open>eng\<close>,
  can deliver the events \<open>es\<close> one after the other to the program in state \<open>app\<close>, and
  that the program handles every one of them (none comes after \<open>run\<close> has returned).
\<close>

fun deliveries :: "engine \<Rightarrow> state \<Rightarrow> event list \<Rightarrow> bool" where
  "deliveries eng app [] = True"
| "deliveries eng app (e # es) =
     (deliverable eng e \<and>
      (case handle app e of
         Inr (True, app', out) \<Rightarrow> deliveries (engine_after eng e out) app' es
       | _ \<Rightarrow> es = []))"

subsection \<open>Concrete runs\<close>

text \<open>Six connection attempts at time 100, before any of them has disconnected.\<close>

definition six_accepts :: "event list" where
  "six_accepts = map (\<lambda>c. LISTENER_ACCEPT 0 c 100) [1, 2, 3, 4, 5, 6]"

text \<open>The state in which \<open>run\<close> is, or has returned, after the events \<open>es\<close>.\<close>

definition state_after :: "lid \<Rightarrow> event list \<Rightarrow> state" where
  "state_after l es =
     (case run (initial l) es of Inr (r, app, out) \<Rightarrow> app | Inl f \<Rightarrow> initial l)"

text \<open>
  Outcomes of \<open>malloc\<close>: every call succeeds, or only the first call of the handler does.
\<close>

definition malloc_ok :: "nat \<Rightarrow> addr option" where
  "malloc_ok k = Some (4096 + k)"

definition malloc_first_only :: "nat \<Rightarrow> addr option" where
  "malloc_first_only k = (if k = 0 then Some 4096 else None)"

text \<open>Two clients connect, at times 100 and 200.\<close>

definition two_connections :: "event list" where
  "two_connections =
     [LISTENER_ACCEPT 0 1 100, RAW 1 (CONNECTED malloc_ok),
      LISTENER_ACCEPT 0 2 200, RAW 2 (CONNECTED malloc_ok)]"

text \<open>One client has been accepted, at time 100.\<close>

definition one_accept :: "event list" where
  "one_accept = [LISTENER_ACCEPT 0 1 100]"

text \<open>
  A client connects, sends \<open>ping\<close> (one buffer of 4 bytes, echoed) and disconnects; then a
  second client is accepted. \<open>one_read\<close> is the run up to the echo.
\<close>

definition ping_mem :: "addr \<Rightarrow> string" where
  "ping_mem p = ''ping''"

definition ping_buffer :: raw_buffer where
  "ping_buffer = \<lparr>bytes_b = Some 4096, capacity = 1024, size_b = 4, offset = 0\<rparr>"

definition slot_reuse :: "event list" where
  "slot_reuse =
     [LISTENER_ACCEPT 0 1 100,
      RAW 1 (CONNECTED malloc_ok),
      RAW 1 (READ 150 ping_mem
               [\<lparr>taken = [ping_buffer], write_closed = False, read_closed = False\<rparr>]),
      RAW 1 (DISCONNECTED None),
      LISTENER_ACCEPT 0 2 300]"

definition one_read :: "event list" where
  "one_read = take 3 slot_reuse"

text \<open>The actions of \<open>run\<close> on the events \<open>es\<close>.\<close>

definition output_after :: "lid \<Rightarrow> event list \<Rightarrow> action list" where
  "output_after l es =
     (case run (initial l) es of Inr (r, app, out) \<Rightarrow> out | Inl f \<Rightarrow> [])"

text \<open>
  Six clients arrive, the sixth while the five slots are taken; each gets its connected
  event; then all six disconnect.
\<close>

definition six_clients :: "event list" where
  "six_clients =
     concat (map (\<lambda>c. [LISTENER_ACCEPT 0 c 100, RAW c (CONNECTED malloc_ok)])
                 [1, 2, 3, 4, 5, 6]) @
     map (\<lambda>c. RAW c (DISCONNECTED None)) [1, 2, 3, 4, 5, 6]"

text \<open>A connection ends with an error condition; then the proactor becomes inactive.\<close>

definition aborted_connection :: "event list" where
  "aborted_connection =
     [LISTENER_ACCEPT 0 1 100,
      RAW 1 (CONNECTED malloc_ok),
      RAW 1 (DISCONNECTED (Some (''amqp:connection:framing-error'', ''connection aborted''))),
      PROACTOR_INACTIVE]"

text \<open>The listener fails and closes with an error condition.\<close>

definition listen_failure :: "event list" where
  "listen_failure =
     [LISTENER_OPEN ''5672'', LISTENER_CLOSE (Some (''proton:io'', ''listen failed''))]"

text \<open>
  The first \<open>malloc\<close> of the connected handler fails and the other three succeed; the
  connection then closes in both directions and the four unused buffers come back.
  \<open>ping_after_null\<close> is a batch in which a filled buffer follows one without memory.
\<close>

definition malloc_first_fails :: "nat \<Rightarrow> addr option" where
  "malloc_first_fails k = (if k = 0 then None else Some (4096 + k))"

definition empty_buffer :: "addr option \<Rightarrow> raw_buffer" where
  "empty_buffer p = \<lparr>bytes_b = p, capacity = 1024, size_b = 0, offset = 0\<rparr>"

definition first_malloc_failed :: "event list" where
  "first_malloc_failed = [LISTENER_ACCEPT 0 1 100, RAW 1 (CONNECTED malloc_first_fails)]"

definition unused_buffers_at_close :: batch where
  "unused_buffers_at_close =
     \<lparr>taken = [empty_buffer None, empty_buffer (Some 4097), empty_buffer (Some 4098),
               empty_buffer (Some 4099)],
      write_closed = True, read_closed = True\<rparr>"

definition ping_after_null :: batch where
  "ping_after_null =
     \<lparr>taken = [empty_buffer None, ping_buffer], write_closed = False, read_closed = False\<rparr>"

text \<open>One client is connected, and a batch with its \<open>ping\<close> arrives.\<close>

definition connected_one :: "event list" where
  "connected_one = take 2 slot_reuse"

definition ping_batch :: batch where
  "ping_batch = \<lparr>taken = [ping_buffer], write_closed = False, read_closed = False\<rparr>"

text \<open>
  A client connects and disconnects, and the timer, armed at the accept for time 5100,
  fires with no connection left. \<open>shutdown_events\<close> are the events that follow the closing
  of the listener.
\<close>

definition idle_run :: "event list" where
  "idle_run =
     [LISTENER_ACCEPT 0 1 100, RAW 1 (CONNECTED malloc_ok), RAW 1 (DISCONNECTED None),
      PROACTOR_TIMEOUT 5100]"

definition shutdown_events :: "event list" where
  "shutdown_events = [LISTENER_CLOSE None, PROACTOR_INACTIVE]"

section \<open>Properties\<close>

subsection \<open>The slot table\<close>

lemma make_conn_data_loop_length:
  "make_conn_data_loop i cds c = (cds', r) \<Longrightarrow> length cds' = length cds"
  by (induction i cds c rule: make_conn_data_loop.induct)
     (subst (asm) make_conn_data_loop.simps, auto split: if_splits)

lemma make_conn_data_length:
  "make_conn_data cds c = (cds', r) \<Longrightarrow> length cds' = length cds"
  unfolding make_conn_data_def by (rule make_conn_data_loop_length)

lemma free_conn_data_length: "length (free_conn_data cds p) = length cds"
  by (simp add: free_conn_data_def split: option.splits)

lemma handle_receive_length:
  "handle_receive app c ev = Inr (app', out) \<Longrightarrow> length (conn_data app') = length (conn_data app)"
  by (cases ev) (auto simp: free_conn_data_length split: option.splits prod.splits)

lemma handle_event_length:
  "handle_event app e = Inr (k, app', out) \<Longrightarrow> length (conn_data app') = length (conn_data app)"
proof (cases e)
  case (LISTENER_ACCEPT l c now)
  then show "handle_event app e = Inr (k, app', out) \<Longrightarrow> ?thesis"
    by (auto split: prod.splits option.splits dest: make_conn_data_length)
next
  case (LISTENER_CLOSE cond)
  then show "handle_event app e = Inr (k, app', out) \<Longrightarrow> ?thesis"
    by (auto simp: check_condition_fatal_def check_condition_def split: prod.splits option.splits bool.splits)
next
  case (RAW c ev)
  then show "handle_event app e = Inr (k, app', out) \<Longrightarrow> ?thesis"
    by (auto split: sum.splits prod.splits dest: handle_receive_length)
qed (auto split: if_splits)

lemma handle_length:
  "handle app e = Inr (k, app', out) \<Longrightarrow> length (conn_data app') = length (conn_data app)"
  by (auto simp: handle_def split: sum.splits prod.splits dest: handle_event_length)

lemma run_length:
  "run app es = Inr (r, app', out) \<Longrightarrow> length (conn_data app') = length (conn_data app)"
proof (induction es arbitrary: app r app' out)
  case Nil
  then show ?case by simp
next
  case (Cons e es)
  then show ?case
    by (auto split: sum.splits prod.splits if_splits dest: handle_length) 
qed

lemma bound_slots_le: "bound_slots cds \<le> length cds"
  by (simp add: bound_slots_def)

lemma make_conn_data_loop_Some:
  "make_conn_data_loop i cds c = (cds', Some j) \<Longrightarrow>
     i \<le> j \<and> j < MAX_CONNECTIONS \<and> connection (cds ! j) = None \<and>
     (\<forall>k. i \<le> k \<and> k < j \<longrightarrow> connection (cds ! k) \<noteq> None) \<and>
     cds' = cds[j := (cds ! j)\<lparr>connection := c\<rparr>]"
proof (induction i cds c rule: make_conn_data_loop.induct)
  case (1 i cds c)
  show ?case
  proof (cases "i < MAX_CONNECTIONS \<and> connection (cds ! i) \<noteq> None")
    case True
    with "1.prems" have "make_conn_data_loop (Suc i) cds c = (cds', Some j)"
      by (subst (asm) make_conn_data_loop.simps) simp
    with True "1.IH" have IH: "Suc i \<le> j \<and> j < MAX_CONNECTIONS \<and> connection (cds ! j) = None \<and>
     (\<forall>k. Suc i \<le> k \<and> k < j \<longrightarrow> connection (cds ! k) \<noteq> None) \<and>
     cds' = cds[j := (cds ! j)\<lparr>connection := c\<rparr>]" by blast
    have "connection (cds ! k) \<noteq> None" if "i \<le> k" "k < j" for k
    proof (cases "k = i")
      case True
      with \<open>i < MAX_CONNECTIONS \<and> connection (cds ! i) \<noteq> None\<close> show ?thesis by simp
    next
      case False
      with that IH show ?thesis by auto
    qed
    with IH show ?thesis by auto
  next
    case False
    with "1.prems" show ?thesis
      by (subst (asm) make_conn_data_loop.simps) (auto split: if_splits)
  qed
qed

lemma make_conn_data_loop_None:
  "make_conn_data_loop i cds c = (cds', None) \<Longrightarrow>
     cds' = cds \<and> (\<forall>k. i \<le> k \<and> k < MAX_CONNECTIONS \<longrightarrow> connection (cds ! k) \<noteq> None)"
proof (induction i cds c rule: make_conn_data_loop.induct)
  case (1 i cds c)
  show ?case
  proof (cases "i < MAX_CONNECTIONS")
    case True
    with "1.prems" have full: "connection (cds ! i) \<noteq> None"
      and rec: "make_conn_data_loop (Suc i) cds c = (cds', None)"
      by (subst (asm) make_conn_data_loop.simps, auto split: if_splits)+
    from "1.IH" [OF True full rec]
    have IH: "cds' = cds \<and>
      (\<forall>k. Suc i \<le> k \<and> k < MAX_CONNECTIONS \<longrightarrow> connection (cds ! k) \<noteq> None)" .
    have "connection (cds ! k) \<noteq> None" if "i \<le> k" "k < MAX_CONNECTIONS" for k
    proof (cases "k = i")
      case True
      with full show ?thesis by simp
    next
      case False
      with that IH show ?thesis by auto
    qed
    with IH show ?thesis by blast
  next
    case False
    with "1.prems" show ?thesis
      by (subst (asm) make_conn_data_loop.simps) auto
  qed
qed

lemma make_conn_data_free:
  assumes "k < MAX_CONNECTIONS" "connection (cds ! k) = None"
  shows "\<exists>i\<le>k. connection (cds ! i) = None \<and> (\<forall>j<i. connection (cds ! j) \<noteq> None) \<and>
           make_conn_data cds c = (cds[i := (cds ! i)\<lparr>connection := c\<rparr>], Some i)"
proof (cases "make_conn_data cds c")
  case (Pair cds' r)
  show ?thesis
  proof (cases r)
    case None
    with Pair assms show ?thesis
      unfolding make_conn_data_def by (auto dest: make_conn_data_loop_None)
  next
    case (Some i)
    with Pair have h: "i < MAX_CONNECTIONS \<and> connection (cds ! i) = None \<and>
       (\<forall>j. 0 \<le> j \<and> j < i \<longrightarrow> connection (cds ! j) \<noteq> None) \<and>
       cds' = cds[i := (cds ! i)\<lparr>connection := c\<rparr>]"
      unfolding make_conn_data_def by (auto dest: make_conn_data_loop_Some)
    with assms have "i \<le> k" by (metis le0 not_le_imp_less)
    with h Pair Some show ?thesis by auto
  qed
qed

lemma make_conn_data_full:
  assumes "\<forall>k<MAX_CONNECTIONS. connection (cds ! k) \<noteq> None"
  shows "make_conn_data cds c = (cds, None)"
proof (cases "make_conn_data cds c")
  case (Pair cds' r)
  show ?thesis
  proof (cases r)
    case None
    with Pair show ?thesis
      unfolding make_conn_data_def by (auto dest: make_conn_data_loop_None)
  next
    case (Some i)
    with Pair have "i < MAX_CONNECTIONS \<and> connection (cds ! i) = None"
      unfolding make_conn_data_def using make_conn_data_loop_Some [of 0 cds c cds' i] by simp
    with assms show ?thesis by force
  qed
qed

text \<open>A context pointer always points into the table.\<close>

lemma handle_receive_context:
  "handle_receive app c ev = Inr (app', out) \<Longrightarrow> context_of app' = context_of app"
  by (cases ev) (auto split: option.splits prod.splits)

lemma handle_context_bound:
  assumes "handle app e = Inr (k, app', out)"
    and "\<forall>c i. context_of app c = Some i \<longrightarrow> i < MAX_CONNECTIONS"
  shows "\<forall>c i. context_of app' c = Some i \<longrightarrow> i < MAX_CONNECTIONS"
proof (cases e)
  case (LISTENER_ACCEPT l c now)
  obtain cds r where m: "make_conn_data (conn_data app) (Some c) = (cds, r)"
    by (cases "make_conn_data (conn_data app) (Some c)")
  show ?thesis
  proof (cases r)
    case None
    with assms LISTENER_ACCEPT m show ?thesis
      by (auto simp: handle_def split: if_splits)
  next
    case (Some i)
    with m have "i < MAX_CONNECTIONS"
      unfolding make_conn_data_def using make_conn_data_loop_Some by blast
    with assms LISTENER_ACCEPT m Some show ?thesis
      by (auto simp: handle_def split: if_splits)
  qed
next
  case (LISTENER_CLOSE cond)
  with assms show ?thesis
    by (cases cond) (auto simp: handle_def check_condition_fatal_def check_condition_def)
next
  case (PROACTOR_TIMEOUT now)
  with assms show ?thesis
    by (auto simp: handle_def split: if_splits)
next
  case (RAW c ev)
  with assms show ?thesis
    by (auto simp: handle_def split: sum.splits prod.splits dest: handle_receive_context)
qed (use assms in \<open>auto simp: handle_def\<close>)

lemma run_context_bound:
  assumes "run app es = Inr (r, app', out)"
    and "\<forall>c i. context_of app c = Some i \<longrightarrow> i < MAX_CONNECTIONS"
  shows "\<forall>c i. context_of app' c = Some i \<longrightarrow> i < MAX_CONNECTIONS"
  using assms
proof (induction es arbitrary: app out)
  case Nil
  then show ?case by simp
next
  case (Cons e es)
  from Cons.prems(1) obtain k app1 out1 where h: "handle app e = Inr (k, app1, out1)"
    by (auto split: sum.splits prod.splits)
  note b = handle_context_bound [OF h Cons.prems(2)]
  show ?case
  proof (cases k)
    case True
    with Cons.prems(1) h obtain out2 where "run app1 es = Inr (r, app', out2)"
      by (auto split: sum.splits prod.splits)
    from Cons.IH [OF this b] show ?thesis .
  next
    case False
    with Cons.prems(1) h have "app' = app1" by simp
    with b show ?thesis by simp
  qed
qed

lemma reachable_context_in_table:
  assumes "run (initial l) es = Inr (r, app, out)" and "context_of app c = Some i"
  shows "i < length (conn_data app)"
proof -
  have "\<forall>c i. context_of (initial l) c = Some i \<longrightarrow> i < MAX_CONNECTIONS"
    by (simp add: initial_def)
  from run_context_bound [OF assms(1) this] assms(2) have "i < MAX_CONNECTIONS" by blast
  moreover from run_length [OF assms(1)] have "length (conn_data app) = MAX_CONNECTIONS"
    by (simp add: initial_def)
  ultimately show ?thesis by simp
qed

subsection \<open>The loops of the handlers\<close>

lemma wake_loop_drop:
  "length cds = MAX_CONNECTIONS \<Longrightarrow>
   wake_loop i cds = map Raw_connection_wake (List.map_filter connection (drop i cds))"
proof (induction i cds rule: wake_loop.induct)
  case (1 i cds)
  show ?case
  proof (cases "i < MAX_CONNECTIONS")
    case True
    with "1.prems" have d: "drop i cds = cds ! i # drop (Suc i) cds"
      by (simp add: Cons_nth_drop_Suc)
    from "1.IH" [OF True "1.prems"] True show ?thesis
      by (subst wake_loop.simps) (simp add: d map_filter_simps split: option.splits)
  next
    case False
    with "1.prems" show ?thesis
      by (subst wake_loop.simps) (simp add: map_filter_simps)
  qed
qed

lemma set_map_filter_connection:
  "c \<in> set (List.map_filter connection cds) \<longleftrightarrow> (\<exists>i<length cds. connection (cds ! i) = Some c)"
proof
  assume "c \<in> set (List.map_filter connection cds)"
  then obtain cd where "cd \<in> set cds" "connection cd = Some c"
    by (auto simp: map_filter_def)
  then show "\<exists>i<length cds. connection (cds ! i) = Some c"
    by (auto simp: in_set_conv_nth)
next
  assume "\<exists>i<length cds. connection (cds ! i) = Some c"
  then obtain i where "i < length cds" "connection (cds ! i) = Some c" by blast
  then have "cds ! i \<in> set cds" "connection (cds ! i) = Some c" by simp_all
  then show "c \<in> set (List.map_filter connection cds)"
    by (force simp: map_filter_def)
qed

lemma alloc_loop_all:
  "alloc_loop READ_BUFFERS malloc (replicate READ_BUFFERS zero_buffer) =
     map (\<lambda>k. \<lparr>bytes_b = malloc k, capacity = 1024, size_b = 0, offset = 0\<rparr>) [0..<READ_BUFFERS]"
  by (simp add: READ_BUFFERS_def eval_nat_numeral)

lemma recv_loop_out:
  "snd (recv_loop mem bs acc) =
     map (\<lambda>b. Fwrite_stdout (payload mem b)) (takeWhile has_bytes bs)"
proof (induction bs arbitrary: acc)
  case Nil
  then show ?case by simp
next
  case (Cons b bs)
  show ?case
  proof (cases "bytes_b b")
    case None
    then have "\<not> has_bytes b" by (simp add: has_bytes_def)
    with None show ?thesis by simp
  next
    case (Some p)
    obtain acc' out where r: "recv_loop mem bs (acc + size_b b) = (acc', out)"
      by (cases "recv_loop mem bs (acc + size_b b)")
    with Cons.IH [of "acc + size_b b"]
    have "out = map (\<lambda>b. Fwrite_stdout (payload mem b)) (takeWhile has_bytes bs)"
      by simp
    moreover from Some have "has_bytes b" "payload mem b = take (unat (size_b b)) (mem p)"
      by (simp_all add: has_bytes_def payload_def)
    ultimately show ?thesis using Some r
      by (simp add: recv_message_def)
  qed
qed

lemma free_loop_eq:
  "free_loop bs =
     List.map_filter (\<lambda>b. map_option Free (bytes_b b)) (takeWhile has_bytes bs)"
proof (induction bs)
  case Nil
  then show ?case by (simp add: map_filter_simps)
next
  case (Cons b bs)
  show ?case
  proof (cases "bytes_b b")
    case None
    then have "\<not> has_bytes b" by (simp add: has_bytes_def)
    with None show ?thesis by (simp add: map_filter_simps)
  next
    case (Some p)
    then have "has_bytes b" by (simp add: has_bytes_def)
    with Some Cons.IH show ?thesis by (simp add: map_filter_simps)
  qed
qed

lemma read_loop_out:
  "snd (read_loop c mem bts cd) =
     concat (map (batch_actions c mem) (takeWhile (\<lambda>bt. taken bt \<noteq> []) bts))"
proof (induction bts arbitrary: cd)
  case Nil
  then show ?case by simp
next
  case (Cons bt bts)
  show ?case
  proof (cases "taken bt = []")
    case True
    then show ?thesis by simp
  next
    case False
    obtain acc out where r: "recv_loop mem (taken bt) (bytes cd) = (acc, out)"
      by (cases "recv_loop mem (taken bt) (bytes cd)")
    with recv_loop_out [of mem "taken bt" "bytes cd"]
    have out: "out = map (\<lambda>b. Fwrite_stdout (payload mem b)) (takeWhile has_bytes (taken bt))"
      by simp
    let ?cd = "cd\<lparr>bytes := acc, buffers := buffers cd + of_nat (length (taken bt))\<rparr>"
    obtain cd' rest where l: "read_loop c mem bts ?cd = (cd', rest)"
      by (cases "read_loop c mem bts ?cd")
    with Cons.IH [of ?cd]
    have rest: "rest = concat (map (batch_actions c mem) (takeWhile (\<lambda>bt. taken bt \<noteq> []) bts))"
      by simp
    have ba: "batch_actions c mem bt =
        out @ (if \<not> write_closed bt then [Write_buffers c (taken bt)]
               else if \<not> read_closed bt then [Give_read_buffers c (taken bt)]
               else free_loop (taken bt))"
      by (simp add: batch_actions_def out free_loop_eq)
    from False r l show ?thesis
      by (simp add: ba rest)
  qed
qed

subsection \<open>When the program goes on\<close>

lemma handle_continue_exit_code:
  "handle app e = Inr (True, app', out) \<Longrightarrow> exit_code app' = 0"
  by (auto simp: handle_def split: sum.splits prod.splits if_splits)

lemma run_waiting_exit_code:
  "run app es = Inr (False, app', out) \<Longrightarrow> exit_code app = 0 \<Longrightarrow> exit_code app' = 0"
proof (induction es arbitrary: app out)
  case Nil
  then show ?case by simp
next
  case (Cons e es)
  from Cons.prems(1) obtain app1 out1 out2 where
    h: "handle app e = Inr (True, app1, out1)" and r: "run app1 es = Inr (False, app', out2)"
    by (auto split: sum.splits prod.splits if_splits)
  from handle_continue_exit_code [OF h] Cons.IH [OF r] show ?case by simp
qed

lemma handle_receive_exit_code:
  "handle_receive app c ev = Inr (app', out) \<Longrightarrow> exit_code app' = exit_code app"
  by (cases ev) (auto split: option.splits prod.splits)

lemma listener_error_stops: "listener_error e \<Longrightarrow> stops e"
  by (cases e) auto

lemma handle_stops:
  assumes "exit_code app = 0" and "handle app e = Inr (k, app', out)"
  shows "k = (\<not> stops e) \<and> exit_code app' = (if listener_error e then 1 else 0)"
proof (cases e)
  case (LISTENER_ACCEPT l c now)
  with assms show ?thesis
    by (auto simp: handle_def split: prod.splits option.splits)
next
  case (LISTENER_CLOSE cond)
  with assms show ?thesis
    by (cases cond) (auto simp: handle_def check_condition_fatal_def check_condition_def)
next
  case (PROACTOR_TIMEOUT now)
  with assms show ?thesis
    by (auto simp: handle_def split: if_splits)
next
  case (RAW c ev)
  with assms show ?thesis
    by (auto simp: handle_def split: sum.splits prod.splits dest: handle_receive_exit_code)
qed (use assms in \<open>auto simp: handle_def\<close>)

lemma run_exit_code:
  assumes "exit_code app = 0" and "run app es = Inr (returned, app', out)"
  shows "case find stops es of
           None \<Rightarrow> \<not> returned \<and> exit_code app' = 0
         | Some e \<Rightarrow> returned \<and> exit_code app' = (if listener_error e then 1 else 0)"
  using assms
proof (induction es arbitrary: app out)
  case Nil
  then show ?case by simp
next
  case (Cons e es)
  from Cons.prems(2) obtain k app1 out1 where h: "handle app e = Inr (k, app1, out1)"
    by (auto split: sum.splits prod.splits)
  note st = handle_stops [OF Cons.prems(1) h]
  show ?case
  proof (cases "stops e")
    case True
    with st h Cons.prems(2) show ?thesis by auto
  next
    case False
    with st listener_error_stops [of e] have k: "k" and ec: "exit_code app1 = 0"
      by (auto split: if_splits)
    from Cons.prems(2) h k obtain out2 where r: "run app1 es = Inr (returned, app', out2)"
      by (auto split: sum.splits prod.splits)
    from Cons.IH [OF ec r] False show ?thesis by simp
  qed
qed

subsection \<open>Evaluating runs on given events\<close>

lemma replicate_five: "replicate 5 z = [z, z, z, z, z]"
  by (simp add: eval_nat_numeral)

lemma alloc_loop_four:
  "alloc_loop READ_BUFFERS malloc (replicate READ_BUFFERS zero_buffer) =
     [\<lparr>bytes_b = malloc 0, capacity = 1024, size_b = 0, offset = 0\<rparr>,
      \<lparr>bytes_b = malloc 1, capacity = 1024, size_b = 0, offset = 0\<rparr>,
      \<lparr>bytes_b = malloc 2, capacity = 1024, size_b = 0, offset = 0\<rparr>,
      \<lparr>bytes_b = malloc 3, capacity = 1024, size_b = 0, offset = 0\<rparr>]"
  by (simp add: READ_BUFFERS_def eval_nat_numeral)

lemmas run_eval =
  state_after_def initial_def handle_def make_conn_data_def make_conn_data_loop.simps
  free_conn_data_def check_condition_def check_condition_fatal_def close_all_def
  MAX_CONNECTIONS_def replicate_five alloc_loop_four recv_message_def

lemma run_six:
  "\<exists>app out. run (initial 0) six_accepts = Inr (False, app, out) \<and>
     map connection (conn_data app) = [Some 1, Some 2, Some 3, Some 4, Some 5]"
  by (simp add: six_accepts_def initial_def handle_def make_conn_data_def
                make_conn_data_loop.simps MAX_CONNECTIONS_def eval_nat_numeral)

lemma two_connections_state:
  "connects (state_after 0 two_connections) = 2 \<and>
   disconnects (state_after 0 two_connections) = 0 \<and>
   wake_conn_time (state_after 0 two_connections) = 5100 \<and>
   exit_code (state_after 0 two_connections) = 0 \<and>
   conn_data (state_after 0 two_connections) =
     [\<lparr>connection = Some 1, last_recv_time = 0, bytes = 0, buffers = 0\<rparr>,
      \<lparr>connection = Some 2, last_recv_time = 0, bytes = 0, buffers = 0\<rparr>,
      \<lparr>connection = None, last_recv_time = 0, bytes = 0, buffers = 0\<rparr>,
      \<lparr>connection = None, last_recv_time = 0, bytes = 0, buffers = 0\<rparr>,
      \<lparr>connection = None, last_recv_time = 0, bytes = 0, buffers = 0\<rparr>]"
  by (simp add: two_connections_def run_eval)

lemma six_accepts_state:
  "conn_data (state_after 0 six_accepts) =
     [\<lparr>connection = Some 1, last_recv_time = 0, bytes = 0, buffers = 0\<rparr>,
      \<lparr>connection = Some 2, last_recv_time = 0, bytes = 0, buffers = 0\<rparr>,
      \<lparr>connection = Some 3, last_recv_time = 0, bytes = 0, buffers = 0\<rparr>,
      \<lparr>connection = Some 4, last_recv_time = 0, bytes = 0, buffers = 0\<rparr>,
      \<lparr>connection = Some 5, last_recv_time = 0, bytes = 0, buffers = 0\<rparr>] \<and>
   context_of (state_after 0 six_accepts) 6 = None \<and>
   (\<exists>out. run (initial 0) six_accepts = Inr (False, state_after 0 six_accepts, out))"
  by (simp add: six_accepts_def run_eval)

lemma one_read_state:
  "conn_data (state_after 0 one_read) =
     [\<lparr>connection = Some 1, last_recv_time = 150, bytes = 4, buffers = 1\<rparr>,
      \<lparr>connection = None, last_recv_time = 0, bytes = 0, buffers = 0\<rparr>,
      \<lparr>connection = None, last_recv_time = 0, bytes = 0, buffers = 0\<rparr>,
      \<lparr>connection = None, last_recv_time = 0, bytes = 0, buffers = 0\<rparr>,
      \<lparr>connection = None, last_recv_time = 0, bytes = 0, buffers = 0\<rparr>] \<and>
   context_of (state_after 0 one_read) 1 = Some 0"
  by (simp add: one_read_def slot_reuse_def ping_buffer_def ping_mem_def malloc_ok_def run_eval)

lemma connected_one_context: "context_of (state_after 0 connected_one) 1 = Some 0"
  by (simp add: connected_one_def slot_reuse_def malloc_ok_def run_eval)

lemma idle_run_state:
  "connects (state_after 0 idle_run) = 1 \<and> disconnects (state_after 0 idle_run) = 1 \<and>
   first_idle_time (state_after 0 idle_run) = 5100 \<and> listener (state_after 0 idle_run) = Some 0 \<and>
   exit_code (state_after 0 idle_run) = 0"
  by (simp add: idle_run_def malloc_ok_def run_eval)

subsection \<open>C1: the two connection counters\<close>

text \<open>
  C1: \<open>disconnects \<le> connects\<close> at every point, also for a connection that was accepted
  and closed for want of a slot. The code does not keep to it: the connected handler counts
  a connection only if it has a slot, the disconnected handler counts every connection. On
  the run \<open>six_clients\<close>, in which the sixth client finds the five slots taken, the program
  ends with 5 connects and 6 disconnects.
\<close>

theorem rejected_connection_counted_as_disconnect:
  "connects (state_after 0 six_clients) = 5 \<and> disconnects (state_after 0 six_clients) = 6"
  by (simp add: six_clients_def malloc_ok_def run_eval)

subsection \<open>C2: what a disconnect leaves in the slot\<close>

text \<open>
  C2, as the code has it. The disconnect event of a connection whose context is slot \<open>i\<close>
  clears the connection handle of that slot and nothing else in the table, so the slot is
  free and \<open>last_recv_time\<close>, \<open>bytes\<close> and \<open>buffers\<close> keep their values; the next
  \<open>make_conn_data\<close> finds a free slot at or before \<open>i\<close> and stores only the connection
  handle in it.
\<close>

theorem disconnect_frees_slot_keeps_counters:
  assumes "length (conn_data app) = MAX_CONNECTIONS"
    and "context_of app c = Some i" and "i < MAX_CONNECTIONS"
  shows "\<exists>app' out. handle_receive app c (DISCONNECTED cond) = Inr (app', out) \<and>
           conn_data app' = (conn_data app)[i := (conn_data app ! i)\<lparr>connection := None\<rparr>] \<and>
           connection (conn_data app' ! i) = None \<and>
           last_recv_time (conn_data app' ! i) = last_recv_time (conn_data app ! i) \<and>
           bytes (conn_data app' ! i) = bytes (conn_data app ! i) \<and>
           buffers (conn_data app' ! i) = buffers (conn_data app ! i) \<and>
           (\<exists>j\<le>i. make_conn_data (conn_data app') c' =
                     ((conn_data app')[j := (conn_data app' ! j)\<lparr>connection := c'\<rparr>], Some j))"
proof -
  let ?cds = "(conn_data app)[i := (conn_data app ! i)\<lparr>connection := None\<rparr>]"
  let ?app' = "app\<lparr>disconnects := disconnects app + 1, conn_data := ?cds\<rparr>"
  let ?out = "Printf (Conn_disconnected i (bytes (conn_data app ! i)) (buffers (conn_data app ! i))) #
               snd (check_condition ''PN_RAW_CONNECTION_DISCONNECTED'' cond)"
  have slot: "?cds ! i = (conn_data app ! i)\<lparr>connection := None\<rparr>"
    using assms(1,3) by simp
  have free: "connection (?cds ! i) = None"
    unfolding slot by simp
  have cd: "conn_data ?app' = ?cds"
    by simp
  have h: "handle_receive app c (DISCONNECTED cond) = Inr (?app', ?out)"
    using assms(2) by (simp add: free_conn_data_def)
  from make_conn_data_free [OF assms(3) free, of c'] obtain j where
    j: "j \<le> i" "make_conn_data ?cds c' = (?cds[j := (?cds ! j)\<lparr>connection := c'\<rparr>], Some j)"
    by blast
  have reuse: "\<exists>j\<le>i. make_conn_data (conn_data ?app') c' =
                 ((conn_data ?app')[j := (conn_data ?app' ! j)\<lparr>connection := c'\<rparr>], Some j)"
    unfolding cd using j by blast
  have keep: "connection (conn_data ?app' ! i) = None"
    "last_recv_time (conn_data ?app' ! i) = last_recv_time (conn_data app ! i)"
    "bytes (conn_data ?app' ! i) = bytes (conn_data app ! i)"
    "buffers (conn_data ?app' ! i) = buffers (conn_data app ! i)"
    unfolding cd slot by simp_all
  from h cd keep reuse show ?thesis
    by blast
qed

text \<open>
  C2 as stated fails: the slot that echoed 4 bytes in 1 buffer at time 150 still has these
  values when it is bound to the second client.
\<close>

theorem counters_survive_reuse:
  "conn_data (state_after 0 slot_reuse) ! 0 =
     \<lparr>connection = Some 2, last_recv_time = 150, bytes = 4, buffers = 1\<rparr>"
  by (simp add: slot_reuse_def ping_buffer_def ping_mem_def malloc_ok_def run_eval)

text \<open>
  The theorem for C2 at the client that has echoed \<open>ping\<close> and disconnects: slot 0 is
  free, keeps time 150, 4 bytes and 1 buffer, and is the slot the next client gets.
\<close>

theorem disconnect_frees_slot_keeps_counters_witness:
  "\<exists>app' out. handle_receive (state_after 0 one_read) 1 (DISCONNECTED None) = Inr (app', out) \<and>
     connection (conn_data app' ! 0) = None \<and>
     last_recv_time (conn_data app' ! 0) = 150 \<and>
     bytes (conn_data app' ! 0) = 4 \<and>
     buffers (conn_data app' ! 0) = 1 \<and>
     make_conn_data (conn_data app') (Some 2) =
       ((conn_data app')[0 := (conn_data app' ! 0)\<lparr>connection := Some 2\<rparr>], Some 0)"
proof -
  let ?app = "state_after 0 one_read"
  have a: "length (conn_data ?app) = MAX_CONNECTIONS" and b: "context_of ?app 1 = Some 0"
    and c: "0 < MAX_CONNECTIONS"
    using one_read_state by (simp_all add: MAX_CONNECTIONS_def)
  from disconnect_frees_slot_keeps_counters [OF a b c, of None "Some 2"] one_read_state
  show ?thesis by auto
qed

subsection \<open>C3: at most five slots are bound\<close>

text \<open>
  C3. Whatever events the program has handled since \<open>main\<close> started, the table has its 5
  entries and at most 5 of them are bound. In such a table \<open>make_conn_data\<close> takes a slot
  exactly when one of the 5 entries has no connection (it stores the connection in the
  first such entry and returns that entry), and returns \<open>NULL\<close> with the table unchanged
  when all 5 have one.
\<close>

theorem slots_never_exceed_five:
  assumes "run (initial l) es = Inr (returned, app, out)"
  shows "MAX_CONNECTIONS = 5 \<and> length (conn_data app) = MAX_CONNECTIONS \<and>
         bound_slots (conn_data app) \<le> MAX_CONNECTIONS \<and>
         (\<forall>c. ((\<exists>k<MAX_CONNECTIONS. connection (conn_data app ! k) = None) \<longrightarrow>
                 (\<exists>i<MAX_CONNECTIONS. connection (conn_data app ! i) = None \<and>
                    (\<forall>j<i. connection (conn_data app ! j) \<noteq> None) \<and>
                    make_conn_data (conn_data app) c =
                      ((conn_data app)[i := (conn_data app ! i)\<lparr>connection := c\<rparr>], Some i))) \<and>
              ((\<forall>k<MAX_CONNECTIONS. connection (conn_data app ! k) \<noteq> None) \<longrightarrow>
                 make_conn_data (conn_data app) c = (conn_data app, None)))"
proof -
  have len: "length (conn_data app) = MAX_CONNECTIONS"
    using run_length [OF assms] by (simp add: initial_def)
  have bound: "bound_slots (conn_data app) \<le> MAX_CONNECTIONS"
    using bound_slots_le [of "conn_data app"] len by simp
  have free: "\<exists>i<MAX_CONNECTIONS. connection (conn_data app ! i) = None \<and>
                    (\<forall>j<i. connection (conn_data app ! j) \<noteq> None) \<and>
                    make_conn_data (conn_data app) c =
                      ((conn_data app)[i := (conn_data app ! i)\<lparr>connection := c\<rparr>], Some i)"
    if "\<exists>k<MAX_CONNECTIONS. connection (conn_data app ! k) = None" for c
  proof -
    from that obtain k where k: "k < MAX_CONNECTIONS" "connection (conn_data app ! k) = None"
      by blast
    from make_conn_data_free [OF k, of c] obtain i where
      i: "i \<le> k" "connection (conn_data app ! i) = None"
         "\<forall>j<i. connection (conn_data app ! j) \<noteq> None"
         "make_conn_data (conn_data app) c =
            ((conn_data app)[i := (conn_data app ! i)\<lparr>connection := c\<rparr>], Some i)"
      by blast
    from i(1) k(1) have "i < MAX_CONNECTIONS" by simp
    with i(2-4) show ?thesis by blast
  qed
  from len bound free make_conn_data_full show ?thesis
    by (simp add: MAX_CONNECTIONS_def)
qed

text \<open>
  The theorem for C3 after six connection attempts, where every slot is bound and a
  seventh reservation returns \<open>NULL\<close>, and at the start, where slot 0 is free.
\<close>

theorem slots_never_exceed_five_witness:
  "(\<exists>app out. run (initial 0) six_accepts = Inr (False, app, out) \<and>
      bound_slots (conn_data app) \<le> MAX_CONNECTIONS \<and>
      map connection (conn_data app) = [Some 1, Some 2, Some 3, Some 4, Some 5] \<and>
      make_conn_data (conn_data app) (Some 7) = (conn_data app, None)) \<and>
   (\<exists>i<MAX_CONNECTIONS. connection (conn_data (initial 0) ! i) = None \<and>
      make_conn_data (conn_data (initial 0)) (Some 7) =
        ((conn_data (initial 0))[i := (conn_data (initial 0) ! i)\<lparr>connection := Some 7\<rparr>],
         Some i))"
proof
  obtain app out where h: "run (initial 0) six_accepts = Inr (False, app, out)"
    and c: "map connection (conn_data app) = [Some 1, Some 2, Some 3, Some 4, Some 5]"
    using run_six by auto
  have full: "\<forall>k<MAX_CONNECTIONS. connection (conn_data app ! k) \<noteq> None"
  proof (intro allI impI)
    fix k assume k: "k < MAX_CONNECTIONS"
    from arg_cong [OF c, of length] have "length (conn_data app) = 5" by simp
    with k have "connection (conn_data app ! k) = map connection (conn_data app) ! k"
      by (simp add: MAX_CONNECTIONS_def)
    also from k have "\<dots> \<noteq> None" unfolding c
      by (auto simp: MAX_CONNECTIONS_def less_Suc_eq eval_nat_numeral)
    finally show "connection (conn_data app ! k) \<noteq> None" .
  qed
  from slots_never_exceed_five [OF h] full
  have "bound_slots (conn_data app) \<le> MAX_CONNECTIONS"
    and "make_conn_data (conn_data app) (Some 7) = (conn_data app, None)"
    by blast+
  with h c
  have "run (initial 0) six_accepts = Inr (False, app, out) \<and>
      bound_slots (conn_data app) \<le> MAX_CONNECTIONS \<and>
      map connection (conn_data app) = [Some 1, Some 2, Some 3, Some 4, Some 5] \<and>
      make_conn_data (conn_data app) (Some 7) = (conn_data app, None)"
    by simp
  then show "\<exists>app out. run (initial 0) six_accepts = Inr (False, app, out) \<and>
      bound_slots (conn_data app) \<le> MAX_CONNECTIONS \<and>
      map connection (conn_data app) = [Some 1, Some 2, Some 3, Some 4, Some 5] \<and>
      make_conn_data (conn_data app) (Some 7) = (conn_data app, None)"
    by (intro exI)
next
  have h0: "run (initial 0) [] = Inr (False, initial 0, [])" by simp
  have free: "\<exists>k<MAX_CONNECTIONS. connection (conn_data (initial 0) ! k) = None"
    by (rule exI [of _ 0]) (simp add: initial_def MAX_CONNECTIONS_def)
  from slots_never_exceed_five [OF h0] free
  show "\<exists>i<MAX_CONNECTIONS. connection (conn_data (initial 0) ! i) = None \<and>
      make_conn_data (conn_data (initial 0)) (Some 7) =
        ((conn_data (initial 0))[i := (conn_data (initial 0) ! i)\<lparr>connection := Some 7\<rparr>],
         Some i)"
    by blast
qed

subsection \<open>C4: the idle shutdown\<close>

lemma free_loop_quiet: "a \<in> set (free_loop bs) \<Longrightarrow> \<not> listener_or_timer a"
  by (induction bs) (auto simp: listener_or_timer_def split: option.splits)

lemma batch_actions_quiet: "a \<in> set (batch_actions c mem bt) \<Longrightarrow> \<not> listener_or_timer a"
  by (auto simp: batch_actions_def listener_or_timer_def map_filter_def split: if_splits)

lemma written_loop_quiet: "a \<in> set (written_loop c bts) \<Longrightarrow> \<not> listener_or_timer a"
proof (induction bts)
  case Nil
  then show ?case by simp
next
  case (Cons bt bts)
  then show ?case
    by (auto simp: listener_or_timer_def split: if_splits dest: free_loop_quiet)
qed

lemma check_condition_quiet:
  "a \<in> set (snd (check_condition e cond)) \<Longrightarrow> \<not> listener_or_timer a"
  by (auto simp: check_condition_def listener_or_timer_def split: option.splits)

lemma handle_receive_quiet:
  assumes "handle_receive app c ev = Inr (app', out)" and "a \<in> set out"
  shows "\<not> listener_or_timer a"
proof (cases ev)
  case (READ now mem batches)
  with assms obtain i where "context_of app c = Some i"
    by (cases "context_of app c") auto
  with READ assms read_loop_out [of c mem batches "(conn_data app ! i)\<lparr>last_recv_time := now\<rparr>"]
  have "a \<in> set (concat (map (batch_actions c mem) (takeWhile (\<lambda>bt. taken bt \<noteq> []) batches)))"
    by (auto split: prod.splits)
  then show ?thesis by (auto dest: batch_actions_quiet)
next
  case (WRITTEN batches)
  with assms show ?thesis by (auto dest: written_loop_quiet)
next
  case (DISCONNECTED cond)
  with assms check_condition_quiet [of a "''PN_RAW_CONNECTION_DISCONNECTED''" cond] show ?thesis
    by (auto simp: listener_or_timer_def split: option.splits)
qed (use assms in \<open>auto simp: listener_or_timer_def split: option.splits\<close>)

lemma handle_quiet:
  assumes "\<not> is_accept e" and "\<not> is_timeout e"
    and "handle app e = Inr (k, app', out)" and "a \<in> set out"
  shows "\<not> listener_or_timer a"
proof (cases e)
  case (LISTENER_CLOSE cond)
  with assms show ?thesis
    by (cases cond)
       (auto simp: handle_def check_condition_fatal_def check_condition_def close_all_def
                   listener_or_timer_def)
next
  case (RAW c ev)
  with assms show ?thesis
    by (auto simp: handle_def split: sum.splits prod.splits dest: handle_receive_quiet)
qed (use assms in \<open>auto simp: handle_def listener_or_timer_def\<close>)

lemma engine_action_quiet: "\<not> listener_or_timer a \<Longrightarrow> engine_action a eng = eng"
  by (cases "(a, eng)" rule: engine_action.cases) (auto simp: listener_or_timer_def)

lemma fold_engine_action_quiet:
  "\<forall>a\<in>set out. \<not> listener_or_timer a \<Longrightarrow> fold engine_action out eng = eng"
  by (induction out) (auto simp: engine_action_quiet)

lemma closed_engine_stays_quiet:
  assumes "\<not> listening eng" and "\<not> timer_armed eng" and "deliveries eng app es"
  shows "(\<forall>e\<in>set es. \<not> is_accept e \<and> \<not> is_timeout e) \<and>
         (\<forall>a\<in>set (all_output app es). \<not> listener_or_timer a)"
  using assms
proof (induction es arbitrary: app)
  case Nil
  then show ?case by simp
next
  case (Cons e es)
  from Cons.prems have del: "deliverable eng e" by simp
  with Cons.prems(1,2) have na: "\<not> is_accept e" and nt: "\<not> is_timeout e"
    by (cases e; simp)+
  then have same: "delivered e eng = eng" by (cases e) auto
  show ?case
  proof (cases "handle app e")
    case (Inl f)
    with na nt Cons.prems show ?thesis by simp
  next
    case (Inr res)
    then obtain k app' out where h: "handle app e = Inr (k, app', out)"
      by (cases res) auto
    have q: "\<forall>a\<in>set out. \<not> listener_or_timer a"
      using handle_quiet [OF na nt h] by blast
    show ?thesis
    proof (cases k)
      case True
      with h Cons.prems(3) have "deliveries (engine_after eng e out) app' es" by simp
      moreover have "engine_after eng e out = eng"
        by (simp add: engine_after_def same fold_engine_action_quiet [OF q])
      ultimately have "deliveries eng app' es" by simp
      from Cons.IH [OF Cons.prems(1,2) this] na nt q h True show ?thesis by auto
    next
      case False
      with h Cons.prems(3) have "es = []" by simp
      with na nt q h False show ?thesis by simp
    qed
  qed
qed

text \<open>
  C4. When the timer fires with \<open>connects = disconnects\<close>, \<open>first_idle_time\<close> set and at
  least 20000 ms old, the handler calls \<open>pn_listener_close\<close> on the listener, once, and
  returns without \<open>pn_proactor_set_timeout\<close>; the state is as before. From then on the
  engine has no listener to accept on and no timer armed, so whatever events it delivers
  afterwards, none is an accept or a timeout, and the program calls neither
  \<open>pn_listener_close\<close> nor \<open>pn_proactor_set_timeout\<close> again.
\<close>

theorem idle_shutdown_closes_listener_once:
  assumes "connects app = disconnects app" and "first_idle_time app \<noteq> 0"
    and "first_idle_time app + 20000 \<le> now" and "listener app = Some l"
  shows "handle app (PROACTOR_TIMEOUT now) =
           Inr (exit_code app = 0, app, [Listener_close (Some l)]) \<and>
         (\<forall>es. deliveries (engine_after eng (PROACTOR_TIMEOUT now) [Listener_close (Some l)])
                  app es \<longrightarrow>
               (\<forall>e\<in>set es. \<not> is_accept e \<and> \<not> is_timeout e) \<and>
               (\<forall>a\<in>set (all_output app es). \<not> is_listener_close a \<and> \<not> is_set_timeout a))"
proof -
  let ?eng = "engine_after eng (PROACTOR_TIMEOUT now) [Listener_close (Some l)]"
  have h: "handle app (PROACTOR_TIMEOUT now) =
             Inr (exit_code app = 0, app, [Listener_close (Some l)])"
    using assms by (simp add: handle_def)
  have off: "\<not> listening ?eng" "\<not> timer_armed ?eng"
    by (simp_all add: engine_after_def)
  have "(\<forall>e\<in>set es. \<not> is_accept e \<and> \<not> is_timeout e) \<and>
        (\<forall>a\<in>set (all_output app es). \<not> is_listener_close a \<and> \<not> is_set_timeout a)"
    if "deliveries ?eng app es" for es
    using closed_engine_stays_quiet [OF off that] by (simp add: listener_or_timer_def)
  with h show ?thesis by blast
qed

text \<open>
  The theorem for C4 at the run \<open>idle_run\<close>: the timer fires again 20000 ms after the
  idle time was set, the listener is closed, and the close event of the listener and the
  inactive event that follow cause no further close and no timer.
\<close>

theorem idle_shutdown_closes_listener_once_witness:
  "handle (state_after 0 idle_run) (PROACTOR_TIMEOUT 25100) =
     Inr (True, state_after 0 idle_run, [Listener_close (Some 0)]) \<and>
   deliveries (engine_after \<lparr>listening = True, timer_armed = True\<rparr> (PROACTOR_TIMEOUT 25100)
                 [Listener_close (Some 0)])
              (state_after 0 idle_run) shutdown_events \<and>
   filter listener_or_timer (all_output (state_after 0 idle_run) shutdown_events) = []"
proof -
  let ?app = "state_after 0 idle_run"
  let ?eng = "engine_after \<lparr>listening = True, timer_armed = True\<rparr> (PROACTOR_TIMEOUT 25100)
                 [Listener_close (Some 0)]"
  have a: "connects ?app = disconnects ?app" and b: "first_idle_time ?app \<noteq> 0"
    and c: "first_idle_time ?app + 20000 \<le> 25100" and d: "listener ?app = Some 0"
    using idle_run_state by simp_all
  have del: "deliveries ?eng ?app shutdown_events"
    using idle_run_state
    by (simp add: shutdown_events_def engine_after_def handle_def check_condition_fatal_def
                  check_condition_def)
  from idle_shutdown_closes_listener_once [OF a b c d, of "\<lparr>listening = True, timer_armed = True\<rparr>"]
       del idle_run_state
  show ?thesis by (simp add: filter_empty_conv listener_or_timer_def)
qed

subsection \<open>C5: the keepalive sweep\<close>

text \<open>
  C5. When the timer fires while \<open>connects\<close> and \<open>disconnects\<close> differ and the clock has
  reached \<open>wake_conn_time\<close>, the handler calls \<open>pn_raw_connection_wake\<close> once for each table
  entry that has a connection, in table order, and for nothing else, sets \<open>wake_conn_time\<close>
  to the clock plus 5000 and arms the timer with 5000 ms. The clock and the stored deadline
  are \<open>int64_t\<close> values, and the clock is at least 5000 ms before the largest of them, so
  that the addition \<open>now + 5000\<close> of the code does not overflow and the new deadline is
  again an \<open>int64_t\<close> value.
\<close>

theorem keepalive_sweep:
  assumes "connects app \<noteq> disconnects app" and "wake_conn_time app \<le> now"
    and "length (conn_data app) = MAX_CONNECTIONS"
    and "int64 (wake_conn_time app)" and "int64 now" and "now + 5000 \<le> INT64_MAX"
  shows "handle app (PROACTOR_TIMEOUT now) =
           Inr (exit_code app = 0, app\<lparr>wake_conn_time := now + 5000\<rparr>,
                map Raw_connection_wake (List.map_filter connection (conn_data app)) @
                [Set_timeout 5000]) \<and>
         int64 (now + 5000) \<and>
         (\<forall>c. c \<in> set (List.map_filter connection (conn_data app)) \<longleftrightarrow>
                (\<exists>i<MAX_CONNECTIONS. connection (conn_data app ! i) = Some c))"
proof -
  have step: "handle app (PROACTOR_TIMEOUT now) =
           Inr (exit_code app = 0, app\<lparr>wake_conn_time := now + 5000\<rparr>,
                map Raw_connection_wake (List.map_filter connection (conn_data app)) @
                [Set_timeout 5000])"
    using assms(1-3) wake_loop_drop [of "conn_data app" 0]
    by (simp add: handle_def)
  have range: "int64 (now + 5000)"
    using assms(5,6) by (simp add: int64_def)
  have woken: "\<forall>c. c \<in> set (List.map_filter connection (conn_data app)) \<longleftrightarrow>
                (\<exists>i<MAX_CONNECTIONS. connection (conn_data app ! i) = Some c)"
    using assms(3) set_map_filter_connection [of _ "conn_data app"] by simp
  from step range woken show ?thesis by blast
qed

text \<open>
  The theorem for C5 with two connected clients and the timer firing at time 6000, after
  the deadline 5100.
\<close>

theorem keepalive_sweep_witness:
  "int64 5100 \<and> int64 6000 \<and> 6000 + 5000 \<le> INT64_MAX \<and> int64 11000 \<and>
   handle (state_after 0 two_connections) (PROACTOR_TIMEOUT 6000) =
     Inr (True, (state_after 0 two_connections)\<lparr>wake_conn_time := 11000\<rparr>,
          [Raw_connection_wake 1, Raw_connection_wake 2, Set_timeout 5000])"
proof -
  let ?app = "state_after 0 two_connections"
  have a: "connects ?app \<noteq> disconnects ?app" and b: "wake_conn_time ?app \<le> 6000"
    and c: "length (conn_data ?app) = MAX_CONNECTIONS"
    using two_connections_state by (simp_all add: MAX_CONNECTIONS_def)
  have r: "int64 5100" "int64 6000" "6000 + 5000 \<le> INT64_MAX"
    by (simp_all add: int64_def INT64_MIN_def INT64_MAX_def)
  have d: "int64 (wake_conn_time ?app)"
    using two_connections_state r(1) by simp
  have m: "List.map_filter connection (conn_data ?app) = [1, 2]"
    using two_connections_state
    by (simp add: map_filter_simps)
  from keepalive_sweep [OF a b c d r(2,3)] m two_connections_state r show ?thesis by simp
qed

subsection \<open>C6: what the read handler does with the buffers\<close>

text \<open>
  C6, as the code has it. For a connection with a slot, the read handler treats the
  batches in turn until the take call returns none. In each batch it writes to stdout the
  first \<open>size\<close> bytes of every buffer before the first one whose \<open>bytes\<close> is \<open>NULL\<close> (of
  every buffer, when none is); then it passes the whole batch to
  \<open>pn_raw_connection_write_buffers\<close> if the write side is open, else the whole batch to
  \<open>pn_raw_connection_give_read_buffers\<close> if the read side is open, else it frees the memory
  of the buffers before the first one whose \<open>bytes\<close> is \<open>NULL\<close>.
\<close>

theorem read_handler_dispositions:
  "handle_receive app c (READ now mem batches) =
     (case context_of app c of
        None \<Rightarrow> Inl Null_dereference
      | Some i \<Rightarrow>
          Inr (app\<lparr>conn_data :=
                     (conn_data app)
                       [i := fst (read_loop c mem batches
                                    ((conn_data app ! i)\<lparr>last_recv_time := now\<rparr>))]\<rparr>,
               concat (map (batch_actions c mem)
                           (takeWhile (\<lambda>bt. taken bt \<noteq> []) batches))))"
proof (cases "context_of app c")
  case None
  then show ?thesis by simp
next
  case (Some i)
  let ?cd = "(conn_data app ! i)\<lparr>last_recv_time := now\<rparr>"
  obtain cd out where l: "read_loop c mem batches ?cd = (cd, out)"
    by (cases "read_loop c mem batches ?cd")
  with read_loop_out [of c mem batches ?cd] Some show ?thesis by simp
qed

text \<open>
  C6 as stated fails: with both sides closed and a first buffer without memory, nothing is
  freed, though three buffers of the batch have memory; and the payload of a buffer that
  follows one without memory is not written to stdout.
\<close>

theorem null_buffer_hides_later_buffers:
  "map_sum id snd
     (handle_receive (state_after 0 first_malloc_failed) 1
        (READ 500 ping_mem [unused_buffers_at_close])) = Inr [] \<and>
   map_sum id snd
     (handle_receive (state_after 0 first_malloc_failed) 1
        (READ 500 ping_mem [ping_after_null])) =
     Inr [Write_buffers 1 [empty_buffer None, ping_buffer]]"
  by (simp add: first_malloc_failed_def malloc_first_fails_def unused_buffers_at_close_def
                ping_after_null_def empty_buffer_def ping_buffer_def run_eval)

text \<open>
  The theorem for C6 at a batch of one buffer holding \<open>ping\<close>, write side open: the
  payload is written to stdout and the buffer is handed back for writing.
\<close>

theorem read_handler_dispositions_witness:
  "map_sum id snd (handle_receive (state_after 0 connected_one) 1 (READ 150 ping_mem [ping_batch])) =
     Inr [Fwrite_stdout ''ping'', Write_buffers 1 [ping_buffer]]"
  using read_handler_dispositions [of "state_after 0 connected_one" 1 150 ping_mem "[ping_batch]"]
        connected_one_context
  by (simp add: batch_actions_def payload_def has_bytes_def ping_batch_def ping_buffer_def
                ping_mem_def)

subsection \<open>C7: a connection that finds the table full\<close>

text \<open>
  C7. While \<open>run\<close> is still handling events and every one of the 5 slots is bound, an
  accept event makes the handler print its message, accept the new connection with
  \<open>pn_listener_raw_accept\<close> and then close it with \<open>pn_raw_connection_close\<close>, in this
  order; the slot table, the counters and \<open>exit_code\<close> are as before, \<open>handle\<close> returns
  \<open>true\<close>, and \<open>run\<close> goes on with the events that follow.
\<close>

theorem full_table_accept_then_close:
  assumes "run (initial l0) es0 = Inr (False, app, out0)"
    and "\<forall>k<MAX_CONNECTIONS. connection (conn_data app ! k) \<noteq> None"
  shows "handle app (LISTENER_ACCEPT l c now) =
           Inr (True, app\<lparr>context_of := (context_of app)(c := None)\<rparr>,
                [Printf Too_many_connections, Listener_raw_accept l c, Raw_connection_close c]) \<and>
         run app (LISTENER_ACCEPT l c now # es) =
           (case run (app\<lparr>context_of := (context_of app)(c := None)\<rparr>) es of
              Inl f \<Rightarrow> Inl f
            | Inr (returned, app', out) \<Rightarrow>
                Inr (returned, app',
                     [Printf Too_many_connections, Listener_raw_accept l c,
                      Raw_connection_close c] @ out))"
proof -
  have "exit_code (initial l0) = 0" by (simp add: initial_def)
  with run_waiting_exit_code [OF assms(1)] have ec: "exit_code app = 0" .
  have full: "make_conn_data (conn_data app) (Some c) = (conn_data app, None)"
    using make_conn_data_full [OF assms(2)] .
  have h: "handle app (LISTENER_ACCEPT l c now) =
           Inr (True, app\<lparr>context_of := (context_of app)(c := None)\<rparr>,
                [Printf Too_many_connections, Listener_raw_accept l c, Raw_connection_close c])"
    by (simp add: handle_def full ec)
  then show ?thesis by simp
qed

text \<open>
  The theorem for C7 at a seventh connection attempt while the five slots are bound.
\<close>

theorem full_table_accept_then_close_witness:
  "handle (state_after 0 six_accepts) (LISTENER_ACCEPT 0 7 300) =
     Inr (True,
          (state_after 0 six_accepts)
            \<lparr>context_of := (context_of (state_after 0 six_accepts))(7 := None)\<rparr>,
          [Printf Too_many_connections, Listener_raw_accept 0 7, Raw_connection_close 7])"
proof -
  let ?app = "state_after 0 six_accepts"
  from six_accepts_state obtain out where
    r: "run (initial 0) six_accepts = Inr (False, ?app, out)" by blast
  have full: "\<forall>k<MAX_CONNECTIONS. connection (conn_data ?app ! k) \<noteq> None"
    using six_accepts_state
    by (simp add: MAX_CONNECTIONS_def eval_nat_numeral less_Suc_eq all_conj_distrib)
  from full_table_accept_then_close [OF r full, of 0 7 300 "[]"] show ?thesis by simp
qed

subsection \<open>C8: the exit status\<close>

text \<open>
  C8 as stated fails: the connection reports an error condition when it disconnects, the
  handler prints it, and \<open>main\<close> returns 0.
\<close>

theorem connection_error_exit_code_0:
  "main 0 aborted_connection = Some 0 \<and>
   Fprintf_stderr ''PN_RAW_CONNECTION_DISCONNECTED'' ''amqp:connection:framing-error''
     ''connection aborted'' \<in> set (output_after 0 aborted_connection)"
  by (simp add: aborted_connection_def main_def output_after_def malloc_ok_def run_eval)

text \<open>
  C8, as the code has it. Unless a handler meets a \<open>NULL\<close> context, \<open>run\<close> returns at
  the first event that is \<open>PN_PROACTOR_INACTIVE\<close> or a listener close with an error
  condition, and \<open>main\<close> then returns 1 if that event is the listener's error and 0 if it
  is \<open>PN_PROACTOR_INACTIVE\<close>; before such an event \<open>run\<close> has not returned. The error
  conditions of connections have no part in it.
\<close>

theorem exit_code_1_only_from_listener:
  "(\<exists>f. run (initial l) es = Inl f) \<or>
   main l es = map_option (\<lambda>e. if listener_error e then 1 else 0) (find stops es)"
proof (cases "run (initial l) es")
  case (Inl f)
  then show ?thesis by blast
next
  case (Inr res)
  then obtain returned app out where r: "run (initial l) es = Inr (returned, app, out)"
    by (cases res) auto
  have "exit_code (initial l) = 0" by (simp add: initial_def)
  from run_exit_code [OF this r] r show ?thesis
    by (auto simp: main_def split: option.splits)
qed

text \<open>
  The theorem for C8 at a listener that closes with an error condition: exit status 1.
\<close>

theorem exit_code_1_only_from_listener_witness:
  "main 0 listen_failure = Some 1"
proof -
  have "\<not> (\<exists>f. run (initial 0) listen_failure = Inl f)"
    by (simp add: listen_failure_def run_eval)
  with exit_code_1_only_from_listener [of 0 listen_failure] show ?thesis
    by (simp add: listen_failure_def)
qed

subsection \<open>C9: allocation of the read buffers\<close>

text \<open>
  C9, as the code has it. The connected handler of a connection with a slot counts the
  connection, fills exactly \<open>READ_BUFFERS = 4\<close> descriptors of capacity 1024, size 0 and
  offset 0 and hands all four to the transport in one \<open>pn_raw_connection_give_read_buffers\<close>
  call, whatever \<open>malloc\<close> returned: the result of \<open>malloc\<close> is not tested, a failed
  allocation leaves \<open>NULL\<close> in the \<open>bytes\<close> of its descriptor, no error is raised and the
  connection is not closed. The handler always returns.
\<close>

theorem connected_gives_four_unchecked:
  "READ_BUFFERS = 4 \<and>
   handle_receive app c (CONNECTED malloc) =
     (case context_of app c of
        Some i \<Rightarrow>
          Inr (app\<lparr>connects := connects app + 1\<rparr>,
               [Printf (Conn_connected i),
                Give_read_buffers c
                  (map (\<lambda>k. \<lparr>bytes_b = malloc k, capacity = 1024, size_b = 0, offset = 0\<rparr>)
                       [0..<READ_BUFFERS])])
      | None \<Rightarrow> Inr (app, [Printf Conn_connected_not_connected]))"
proof -
  have "READ_BUFFERS = 4" by (simp add: READ_BUFFERS_def)
  then show ?thesis by (simp add: alloc_loop_all split: option.splits)
qed

text \<open>
  C9 as stated fails: with memory exhausted after the first of the four allocations, one
  buffer with memory and three without are handed to the transport, and the connection is
  counted and stays open.
\<close>

theorem malloc_failure_unnoticed:
  "handle_receive (state_after 0 one_accept) 1 (CONNECTED malloc_first_only) =
     Inr ((state_after 0 one_accept)\<lparr>connects := 1\<rparr>,
          [Printf (Conn_connected 0),
           Give_read_buffers 1
             [\<lparr>bytes_b = Some 4096, capacity = 1024, size_b = 0, offset = 0\<rparr>,
              \<lparr>bytes_b = None, capacity = 1024, size_b = 0, offset = 0\<rparr>,
              \<lparr>bytes_b = None, capacity = 1024, size_b = 0, offset = 0\<rparr>,
              \<lparr>bytes_b = None, capacity = 1024, size_b = 0, offset = 0\<rparr>]])"
  by (simp add: one_accept_def malloc_first_only_def run_eval)

text \<open>
  The theorem for C9 at a run where every allocation succeeds.
\<close>

theorem connected_gives_four_unchecked_witness:
  "handle_receive (state_after 0 one_accept) 1 (CONNECTED malloc_ok) =
     Inr ((state_after 0 one_accept)\<lparr>connects := 1\<rparr>,
          [Printf (Conn_connected 0),
           Give_read_buffers 1
             [\<lparr>bytes_b = Some 4096, capacity = 1024, size_b = 0, offset = 0\<rparr>,
              \<lparr>bytes_b = Some 4097, capacity = 1024, size_b = 0, offset = 0\<rparr>,
              \<lparr>bytes_b = Some 4098, capacity = 1024, size_b = 0, offset = 0\<rparr>,
              \<lparr>bytes_b = Some 4099, capacity = 1024, size_b = 0, offset = 0\<rparr>]])"
proof -
  have ctx: "context_of (state_after 0 one_accept) 1 = Some 0"
    and cn: "connects (state_after 0 one_accept) = 0"
    by (simp_all add: one_accept_def run_eval)
  have up: "[0..<READ_BUFFERS] = [0, 1, 2, 3]"
    by (simp add: READ_BUFFERS_def upt_rec)
  from connected_gives_four_unchecked [of "state_after 0 one_accept" 1 malloc_ok] ctx cn
  have "handle_receive (state_after 0 one_accept) 1 (CONNECTED malloc_ok) =
          Inr ((state_after 0 one_accept)\<lparr>connects := 1\<rparr>,
               [Printf (Conn_connected 0),
                Give_read_buffers 1
                  (map (\<lambda>k. \<lparr>bytes_b = malloc_ok k, capacity = 1024, size_b = 0, offset = 0\<rparr>)
                       [0..<READ_BUFFERS])])"
    by simp
  then show ?thesis
    unfolding up by (simp add: malloc_ok_def)
qed

subsection \<open>C10: handlers that use the context unchecked\<close>

text \<open>
  C10, as the code has it. The read handler stores through the context pointer without
  testing it: it faults with a null dereference exactly when the connection has no context,
  and returns normally when it has one. The wake handler does not dereference the context:
  it only subtracts \<open>conn_data\<close> from it to print the slot number, also untested, which for
  a connection without context is a pointer difference taken from \<open>NULL\<close>. A connection
  accepted while all slots are bound is left without context, so a read event for it is a
  null dereference and a wake event for it is that pointer difference.
\<close>

theorem null_context_read_and_wake:
  "(handle_receive app c (READ now mem batches) = Inl Null_dereference \<longleftrightarrow>
      context_of app c = None) \<and>
   (context_of app c \<noteq> None \<longrightarrow>
      (\<exists>app' out. handle_receive app c (READ now mem batches) = Inr (app', out))) \<and>
   handle_receive app c WAKE =
     (case context_of app c of
        None \<Rightarrow> Inl Null_pointer_difference
      | Some i \<Rightarrow> Inr (app, [Printf (Conn_woken i)])) \<and>
   ((\<forall>k<MAX_CONNECTIONS. connection (conn_data app ! k) \<noteq> None) \<longrightarrow>
      (\<exists>k app' out. handle app (LISTENER_ACCEPT l c t) = Inr (k, app', out) \<and>
         context_of app' c = None \<and>
         handle_receive app' c (READ now mem batches) = Inl Null_dereference \<and>
         handle_receive app' c WAKE = Inl Null_pointer_difference))"
proof (intro conjI impI)
  show "handle_receive app c (READ now mem batches) = Inl Null_dereference \<longleftrightarrow>
      context_of app c = None"
    by (auto split: option.splits prod.splits)
next
  assume "context_of app c \<noteq> None"
  then show "\<exists>app' out. handle_receive app c (READ now mem batches) = Inr (app', out)"
    by (auto split: option.splits prod.splits)
next
  show "handle_receive app c WAKE =
     (case context_of app c of
        None \<Rightarrow> Inl Null_pointer_difference
      | Some i \<Rightarrow> Inr (app, [Printf (Conn_woken i)]))"
    by simp
next
  assume full: "\<forall>k<MAX_CONNECTIONS. connection (conn_data app ! k) \<noteq> None"
  let ?app' = "app\<lparr>context_of := (context_of app)(c := None)\<rparr>"
  have "handle app (LISTENER_ACCEPT l c t) =
          Inr (exit_code app = 0, ?app',
               [Printf Too_many_connections, Listener_raw_accept l c, Raw_connection_close c])"
    by (simp add: handle_def make_conn_data_full [OF full])
  moreover have "context_of ?app' c = None" by simp
  moreover have "handle_receive ?app' c (READ now mem batches) = Inl Null_dereference" by simp
  moreover have "handle_receive ?app' c WAKE = Inl Null_pointer_difference" by simp
  ultimately show "\<exists>k app' out. handle app (LISTENER_ACCEPT l c t) = Inr (k, app', out) \<and>
         context_of app' c = None \<and>
         handle_receive app' c (READ now mem batches) = Inl Null_dereference \<and>
         handle_receive app' c WAKE = Inl Null_pointer_difference"
    by blast
qed

text \<open>
  C10 as stated fails for the wake handler: for the sixth client, which has no context, it
  does not reach a dereference of the context.
\<close>

theorem wake_without_slot_no_dereference:
  "context_of (state_after 0 six_accepts) 6 = None \<and>
   handle_receive (state_after 0 six_accepts) 6 WAKE = Inl Null_pointer_difference \<and>
   handle_receive (state_after 0 six_accepts) 6 WAKE \<noteq> Inl Null_dereference"
  using six_accepts_state by simp

text \<open>
  The theorem for C10 at a connection with a slot, whose read event returns normally, and
  at a seventh connection attempt with the table full, whose read event is a null
  dereference.
\<close>

theorem null_context_read_and_wake_witness:
  "handle_receive (state_after 0 one_read) 1 (READ 160 ping_mem []) =
     Inr (state_after 0 one_read\<lparr>conn_data := (conn_data (state_after 0 one_read))
            [0 := (conn_data (state_after 0 one_read) ! 0)\<lparr>last_recv_time := 160\<rparr>]\<rparr>, []) \<and>
   handle_receive (state_after 0 one_read) 1 (READ 160 ping_mem []) \<noteq> Inl Null_dereference \<and>
   (\<exists>k app' out. handle (state_after 0 six_accepts) (LISTENER_ACCEPT 0 7 300) =
                    Inr (k, app', out) \<and>
      handle_receive app' 7 (READ 400 ping_mem []) = Inl Null_dereference)"
proof -
  have ctx: "context_of (state_after 0 one_read) 1 \<noteq> None"
    using one_read_state by simp
  have full: "\<forall>k<MAX_CONNECTIONS. connection (conn_data (state_after 0 six_accepts) ! k) \<noteq> None"
    using six_accepts_state
    by (simp add: MAX_CONNECTIONS_def eval_nat_numeral less_Suc_eq all_conj_distrib)
  note thm1 = null_context_read_and_wake [of "state_after 0 one_read" 1 160 ping_mem "[]" 0 300]
  note thm2 = null_context_read_and_wake [of "state_after 0 six_accepts" 7 400 ping_mem "[]" 0 300]
  from thm1 ctx
  have a: "handle_receive (state_after 0 one_read) 1 (READ 160 ping_mem []) \<noteq>
             Inl Null_dereference"
    by simp
  from one_read_state have b: "handle_receive (state_after 0 one_read) 1 (READ 160 ping_mem []) =
     Inr (state_after 0 one_read\<lparr>conn_data := (conn_data (state_after 0 one_read))
            [0 := (conn_data (state_after 0 one_read) ! 0)\<lparr>last_recv_time := 160\<rparr>]\<rparr>, [])"
    by simp
  from thm2 full
  have c: "\<exists>k app' out. handle (state_after 0 six_accepts) (LISTENER_ACCEPT 0 7 300) =
                    Inr (k, app', out) \<and>
      handle_receive app' 7 (READ 400 ping_mem []) = Inl Null_dereference"
    by blast
  from a b c show ?thesis by blast
qed

end
